theory Spec2Isabelle
  imports Main "HOL-Library.Word" "HOL-Library.Monad_Syntax"
begin

unbundle bit_operations_syntax

text \<open>
  Three parts of the demo suite are modelled: the user layer of the USB host
  mass-storage demo with its state machine and its traversal of the disk, the interrupt
  handlers of the FreeRTOS Ethernet demo, and the timer and DHCP polling of the raw
  web server demo.
\<close>

section \<open>Common notions\<close>

type_synonym u8 = "8 word"
type_synonym u16 = "16 word"
type_synonym u32 = "32 word"
type_synonym u64 = "64 word"

text \<open>
  The firmware calls into libraries that are not part of the demo sources (the board
  support package, the LCD log, FatFs, the USB host stack, lwIP, FreeRTOS).  Such a call
  is recorded, with its arguments, in a trace; what it returns is an input of the model.
\<close>

datatype arg = Str string | Sym string | Num nat

datatype event = Call string "arg list"

definition crlf :: string where
  "crlf = [CHR 0x0D, CHR 0x0A]"

definition lf :: string where
  "lf = [CHR 0x0A]"

text \<open>
  A C \<^verbatim>\<open>while\<close> loop whose condition may read the hardware: the condition yields
  its truth value and the state after its evaluation.  A loop that never leaves has the
  value \<open>None\<close>.
\<close>

partial_function (option) while_loop ::
  "('s \<Rightarrow> bool \<times> 's) \<Rightarrow> ('s \<Rightarrow> 's) \<Rightarrow> 's \<Rightarrow> 's option" where
  "while_loop c body s =
     (if fst (c s) then while_loop c body (body (snd (c s))) else Some (snd (c s)))"

section \<open>USB host mass-storage demo (usbh_usr.c)\<close>

datatype FlagStatus = RESET | SET

text \<open>\<open>FRESULT\<close> of FatFs: \<open>FR_OK\<close>, or one of the error codes.\<close>

datatype FRESULT = FR_OK | FR_ERR nat

datatype usbh_status = USBH_OK | USBH_FAIL nat

text \<open>
  The demo states.  The variable is a \<^verbatim>\<open>uint8_t\<close>; a value that is none of the
  four named states (taken by the \<^verbatim>\<open>default\<close> branch) is \<open>USBH_USR_FS_OTHER\<close>.
\<close>

datatype usbh_usr_state =
    USBH_USR_FS_INIT
  | USBH_USR_FS_READLIST
  | USBH_USR_FS_WRITEFILE
  | USBH_USR_FS_DEMOEND
  | USBH_USR_FS_OTHER u8

text \<open>
  The two fields of \<^verbatim>\<open>FILINFO\<close> that the program reads.  The name is a C string,
  kept without its terminating zero: \<^verbatim>\<open>fname[0] == 0\<close> is \<open>fname = []\<close>.
\<close>

record FILINFO =
  fname :: string
  fattrib :: u8

text \<open>
  The build: the preprocessor switches of usbh_usr.c, and the attribute mask \<open>AM_DIR\<close>
  of ff.h, a header that is not among the sources.
\<close>

record build =
  USE_LCD :: bool
  USE_ULPI_PHY :: bool
  AM_DIR :: u8

text \<open>
  What the program reads from outside.  The hardware is sampled: the \<open>n\<close>-th read of
  the connection status and of the keys yields the values at index \<open>n\<close>.  A directory
  is the result of \<^verbatim>\<open>f_opendir\<close> and the finite list of what successive calls of
  \<^verbatim>\<open>f_readdir\<close> return; after the list, \<^verbatim>\<open>f_readdir\<close> reports the end of the
  listing (\<open>FR_OK\<close> with an empty name).  \<open>f_mount\<close> is the result of the mount in
  state \<open>USBH_USR_FS_INIT\<close> (the program ignores the result of the later ones),
  \<open>f_open_write\<close> and \<open>f_open_read\<close> are the results of the two calls of
  \<^verbatim>\<open>f_open\<close>, \<open>f_write\<close> is the result of \<^verbatim>\<open>f_write\<close> with the number of bytes
  it reports, \<open>f_read\<close> the result of \<^verbatim>\<open>f_read\<close> with the number of bytes and the
  bytes themselves.
\<close>

record usb_world =
  connect_status :: "nat \<Rightarrow> bool"
  key_tamper :: "nat \<Rightarrow> FlagStatus"
  key_wakeup :: "nat \<Rightarrow> FlagStatus"
  f_mount :: FRESULT
  usbh_msc_lun_info_get :: "usbh_status \<times> u32 \<times> u32"
  f_opendir :: "string \<Rightarrow> FRESULT"
  f_readdir :: "string \<Rightarrow> (FRESULT \<times> FILINFO) list"
  f_open_write :: FRESULT
  f_write :: "FRESULT \<times> u16"
  f_open_read :: FRESULT
  f_read :: "FRESULT \<times> u16 \<times> string"

text \<open>
  The state: the global variables of usbh_usr.c, the static variables \<open>startup\<close> of
  \<^verbatim>\<open>usbh_user_init\<close> and \<open>i\<close> of \<^verbatim>\<open>toggle_leds\<close> (here \<open>toggle_i\<close>), the
  number of hardware reads made so far (\<open>clock\<close>), and the trace of calls.
\<close>

record usbh =
  usbh_usr_application_state :: usbh_usr_state
  line_idx :: u8
  res :: FRESULT
  startup :: u8
  toggle_i :: u32
  bytesWritten :: u16
  bytesToWrite :: u16
  bytesRead :: u16
  ReadTextBuff :: string
  clock :: nat
  trace :: "event list"

definition WriteTextBuff :: string where
  "WriteTextBuff = ''GD32 USB Host Demo application using FAT_FS   ''"

definition call :: "string \<Rightarrow> arg list \<Rightarrow> usbh \<Rightarrow> usbh" where
  "call f args s = s\<lparr>trace := trace s @ [Call f args]\<rparr>"

definition tick :: "usbh \<Rightarrow> usbh" where
  "tick s = s\<lparr>clock := Suc (clock s)\<rparr>"

definition usbh_user_init :: "build \<Rightarrow> usbh \<Rightarrow> usbh" where
  "usbh_user_init b s =
     (if 0 = startup s then
        let s = s\<lparr>startup := 1\<rparr>;
            s = (if USE_ULPI_PHY b
                 then call ''gd_eval_led_init'' [Sym ''LED2'']
                        (call ''gd_eval_led_init'' [Sym ''LED1''] s)
                 else s);
            s = call ''gd_eval_key_init'' [Sym ''KEY_TAMPER'', Sym ''KEY_MODE_GPIO''] s;
            s = call ''gd_eval_key_init'' [Sym ''KEY_WAKEUP'', Sym ''KEY_MODE_GPIO''] s
        in if USE_LCD b then
             let s = call ''gd_eval_lcd_init'' [] s;
                 s = call ''lcd_log_init'' [] s;
                 s = call ''lcd_log_header_set'' [Str ''USBFS & USBHS MSC Host'', Num 50] s;
                 s = call ''LCD_UsrLog'' [Str (''USB host library started'' @ lf)] s
             in call ''lcd_log_footer_set'' [Str ''USB Host Library v3.0.0'', Num 40] s
           else
             let s = call ''gd_eval_com_init'' [Sym ''EVAL_COM''] s
             in call ''LCD_UsrLog''
                  [Str (crlf @ ''++++USB host library started++++'' @ crlf)] s
      else s)"

definition usbh_user_deinit :: "usbh \<Rightarrow> usbh" where
  "usbh_user_deinit s = s\<lparr>usbh_usr_application_state := USBH_USR_FS_INIT\<rparr>"

definition toggle_leds :: "build \<Rightarrow> usbh \<Rightarrow> usbh" where
  "toggle_leds b s =
     (if USE_ULPI_PHY b then
        let i = toggle_i s; s = s\<lparr>toggle_i := i + 1\<rparr>
        in if 0x10000 = i then
             (call ''gd_eval_led_toggle'' [Sym ''LED2'']
                (call ''gd_eval_led_toggle'' [Sym ''LED1''] s))\<lparr>toggle_i := 0\<rparr>
           else s
      else s)"

text \<open>
  The two polling waits: while the device is connected and the Tamper key reads
  \<open>SET\<close> (the Wakeup key reads \<open>RESET\<close>), toggle the LEDs.
\<close>

definition tamper_cond :: "usb_world \<Rightarrow> usbh \<Rightarrow> bool \<times> usbh" where
  "tamper_cond w s =
     (connect_status w (clock s) \<and> SET = key_tamper w (clock s), tick s)"

definition wakeup_cond :: "usb_world \<Rightarrow> usbh \<Rightarrow> bool \<times> usbh" where
  "wakeup_cond w s =
     (connect_status w (clock s) \<and> RESET = key_wakeup w (clock s), tick s)"

text \<open>
  The part of the loop body of \<^verbatim>\<open>explore_disk\<close> that lists one entry: count the
  line, after five lines ask for the Tamper key and wait for it, then print the entry
  under the prefix of its level.
\<close>

definition list_entry :: "build \<Rightarrow> usb_world \<Rightarrow> u8 \<Rightarrow> FILINFO \<Rightarrow> usbh \<Rightarrow> usbh option" where
  "list_entry b w recu_level fno s = do {
     let s = s\<lparr>line_idx := line_idx s + 1\<rparr>;
     s \<leftarrow> (if line_idx s > 4 then
            let s = s\<lparr>line_idx := 0\<rparr>;
                s = (if USE_LCD b then
                       call ''lcd_vertical_string_display''
                         [Sym ''LCD_HINT_LINE2'', Num 0, Str ''Press Tamper Key to continue'']
                         (call ''lcd_vertical_string_display''
                            [Sym ''LCD_HINT_LINE1'', Num 0,
                             Str ''                                '']
                            (call ''lcd_text_color_set'' [Sym ''LCD_COLOR_GREEN''] s))
                     else
                       call ''LCD_UsrLog''
                         [Str (''>>> Press Tamper Key to continue'' @ crlf)] s)
            in while_loop (tamper_cond w) (toggle_leds b) s
          else Some s);
     let s = (if 1 = recu_level then call ''LCD_UsrLog'' [Str ''   |__''] s
              else if 2 = recu_level then call ''LCD_UsrLog'' [Str ''   |   |__''] s
              else s);
     Some (call ''LCD_UsrLog'' [Str (''%s'' @ crlf), Str (fname fno)] s)
   }"


text \<open>
  \<^verbatim>\<open>explore_disk\<close>: \<open>explore_loop\<close> is its \<^verbatim>\<open>while\<close> loop over the entries that
  \<^verbatim>\<open>f_readdir\<close> has still to return.  The value returned is the global \<open>res\<close>.
\<close>

function explore_loop ::
    "build \<Rightarrow> usb_world \<Rightarrow> u8 \<Rightarrow> (FRESULT \<times> FILINFO) list \<Rightarrow> usbh \<Rightarrow> usbh option"
  and explore_disk ::
    "build \<Rightarrow> usb_world \<Rightarrow> string \<Rightarrow> u8 \<Rightarrow> usbh \<Rightarrow> (FRESULT \<times> usbh) option"
where
  "explore_loop b w recu_level [] s =
     (if \<not> connect_status w (clock s) then Some (tick s)
      else Some ((call ''f_readdir'' [] (tick s))\<lparr>res := FR_OK\<rparr>))"
| "explore_loop b w recu_level ((r, fno) # dir) s =
     (if \<not> connect_status w (clock s) then Some (tick s)
      else
        let s = (call ''f_readdir'' [] (tick s))\<lparr>res := r\<rparr> in
        if FR_OK \<noteq> r \<or> fname fno = [] then Some s
        else if CHR ''.'' = hd (fname fno) then explore_loop b w recu_level dir s
        else do {
          s \<leftarrow> list_entry b w recu_level fno s;
          s \<leftarrow> (if AM_DIR b = fattrib fno \<and> 1 = recu_level then
                 explore_disk b w (fname fno) 2 s \<bind> (\<lambda>(r, s). Some s)
               else Some s);
          explore_loop b w recu_level dir s
        })"
| "explore_disk b w path recu_level s =
     (let s = (call ''f_opendir'' [Str path] s)\<lparr>res := f_opendir w path\<rparr> in
      if res s = FR_OK then
        explore_loop b w recu_level (f_readdir w path) s \<bind> (\<lambda>s. Some (res s, s))
      else Some (res s, s))"
  by pat_completeness auto
termination
  by (relation "inv_image (less_than <*lex*> less_than) (\<lambda>x. case x of
        Inl (b, w, l, dir, s) \<Rightarrow> (if l = 1 then 1 else 0 :: nat, length dir)
      | Inr (b, w, p, l, s) \<Rightarrow> (if l = 1 then 1 else 0, Suc (length (f_readdir w p))))")
    auto

text \<open>
  \<^verbatim>\<open>usbh_usr_msc_application\<close>: one step of the demo.  The result is the value
  returned and the state; \<open>None\<close> when the call does not return.
\<close>

definition usbh_usr_msc_application ::
    "build \<Rightarrow> usb_world \<Rightarrow> usbh \<Rightarrow> (int \<times> usbh) option" where
  "usbh_usr_msc_application b w s =
     (case usbh_usr_application_state s of
        USBH_USR_FS_INIT \<Rightarrow>
          let s = call ''f_mount'' [Sym ''&fatfs'', Str ''0:/'', Num 0] s in
          if FR_OK \<noteq> f_mount w then
            Some (- 1, call ''LCD_ErrLog'' [Str (''> Cannot initialize File System.'' @ crlf)] s)
          else
            let s = call ''LCD_UsrLog'' [Str (''> File System initialized.'' @ crlf)] s;
                s = (case usbh_msc_lun_info_get w of
                       (st, block_nbr, block_size) \<Rightarrow>
                         if USBH_OK = st then
                           call ''LCD_UsrLog''
                             [Str (''> Disk capacity: %llu Bytes.'' @ crlf),
                              Num (unat ((ucast block_nbr :: u64) * ucast block_size))] s
                         else s)
            in Some (0, s\<lparr>usbh_usr_application_state := USBH_USR_FS_READLIST\<rparr>)
      | USBH_USR_FS_READLIST \<Rightarrow> do {
          let s = call ''LCD_UsrLog'' [Str (''> Exploring disk flash ...'' @ crlf)] s;
          let s = (if USE_LCD b then
                     call ''lcd_vertical_string_display''
                       [Sym ''LCD_HINT_LINE2'', Num 0, Str ''Press Tamper Key...            '']
                       (call ''lcd_vertical_string_display''
                          [Sym ''LCD_HINT_LINE1'', Num 0,
                           Str ''To see the root content of disk'']
                          (call ''lcd_text_color_set'' [Sym ''LCD_COLOR_GREEN''] s))
                   else
                     call ''LCD_UsrLog'' [Str (''>>> Press Tamper Key...'' @ crlf)]
                       (call ''LCD_UsrLog''
                          [Str (''>>> To see the root content of disk '' @ crlf)] s));
          s \<leftarrow> while_loop (tamper_cond w) (toggle_leds b) s;
          (r, s) \<leftarrow> explore_disk b w ''0:/'' 1 s;
          let s = s\<lparr>line_idx := 0\<rparr>;
          Some (0, s\<lparr>usbh_usr_application_state := USBH_USR_FS_WRITEFILE\<rparr>)
        }
      | USBH_USR_FS_WRITEFILE \<Rightarrow> do {
          let s = call ''usb_mdelay'' [Num 100] s;
          let s = (if USE_LCD b then
                     call ''lcd_vertical_string_display''
                       [Sym ''LCD_HINT_LINE2'', Num 0, Str ''Press Wakeup Key to write file'']
                       (call ''lcd_vertical_string_display''
                          [Sym ''LCD_HINT_LINE1'', Num 0,
                           Str ''                                  '']
                          (call ''lcd_text_color_set'' [Sym ''LCD_COLOR_GREEN''] s))
                   else
                     call ''LCD_UsrLog''
                       [Str (''>>> Press Wakeup Key to write file'' @ crlf)] s);
          s \<leftarrow> while_loop (wakeup_cond w) (toggle_leds b) s;
          let s = call ''LCD_UsrLog'' [Str (''> Writing File to disk flash ...'' @ crlf)] s;
          let s = call ''f_mount'' [Sym ''&fatfs'', Str ''0:/'', Num 1] s;
          let s = call ''f_open''
                    [Str ''0:GD32.TXT'', Sym ''FA_CREATE_ALWAYS | FA_WRITE''] s;
          let s =
            (if FR_OK = f_open_write w then
               let s = call ''LCD_UsrLog'' [Str (''> GD32.TXT be opened for write.'' @ lf)] s;
                   s = s\<lparr>bytesToWrite := of_nat (length WriteTextBuff)\<rparr>;
                   s = (call ''f_write'' [Str WriteTextBuff, Num (unat (bytesToWrite s))] s)
                         \<lparr>res := fst (f_write w), bytesWritten := snd (f_write w)\<rparr>;
                   s = call ''f_sync'' [] s;
                   s = (if 0 = bytesWritten s \<or> FR_OK \<noteq> res s then
                          call ''LCD_ErrLog'' [Str (''> GD32.TXT CANNOT be written.'' @ crlf)] s
                        else
                          let s = call ''f_open'' [Str ''0:GD32.TXT'', Sym ''FA_READ''] s in
                          if FR_OK = f_open_read w then
                            let s = (call ''f_read'' [Num 100] s)
                                      \<lparr>res := fst (f_read w),
                                       bytesRead := fst (snd (f_read w)),
                                       ReadTextBuff := snd (snd (f_read w))\<rparr>
                            in if bytesRead s = 0 \<or> res s \<noteq> FR_OK then
                                 call ''LCD_ErrLog''
                                   [Str (''> GD32.TXT CANNOT be read.'' @ crlf)] s
                               else if bytesRead s = bytesWritten s \<and>
                                       take (unat (bytesRead s)) (ReadTextBuff s) =
                                       take (unat (bytesRead s)) WriteTextBuff then
                                 call ''LCD_UsrLog''
                                   [Str (''> File content compare: SUCCESS.'' @ crlf)] s
                               else
                                 call ''LCD_ErrLog''
                                   [Str (''> File content compare: ERROR.'' @ crlf)] s
                          else
                            call ''LCD_ErrLog''
                              [Str (''> GD32.TXT CANNOT be opened for read.'' @ crlf)] s)
               in call ''f_close'' [] s
             else
               call ''LCD_ErrLog'' [Str (''> GD32.TXT CANNOT be opened.'' @ crlf)] s);
          let s = call ''f_mount'' [Sym ''NULL'', Str ''0:/'', Num 1] s;
          let s = s\<lparr>usbh_usr_application_state := USBH_USR_FS_DEMOEND\<rparr>;
          Some (0, call ''LCD_UsrLog'' [Str (''> The MSC host demo is end.'' @ crlf)] s)
        }
      | USBH_USR_FS_DEMOEND \<Rightarrow> Some (0, s)
      | USBH_USR_FS_OTHER v \<Rightarrow> Some (0, s))"

section \<open>Interrupt handlers of the FreeRTOS Ethernet demo (gd32h7xx_it.c)\<close>

text \<open>
  The fault and exception handlers are an endless loop with an empty body each:
  \<^verbatim>\<open>while(1) { }\<close>.
\<close>

definition NMI_Handler :: "'s \<Rightarrow> 's option" where
  "NMI_Handler s = while_loop (\<lambda>s. (True, s)) (\<lambda>s. s) s"

definition HardFault_Handler :: "'s \<Rightarrow> 's option" where
  "HardFault_Handler s = while_loop (\<lambda>s. (True, s)) (\<lambda>s. s) s"

definition MemManage_Handler :: "'s \<Rightarrow> 's option" where
  "MemManage_Handler s = while_loop (\<lambda>s. (True, s)) (\<lambda>s. s) s"

definition BusFault_Handler :: "'s \<Rightarrow> 's option" where
  "BusFault_Handler s = while_loop (\<lambda>s. (True, s)) (\<lambda>s. s) s"

definition UsageFault_Handler :: "'s \<Rightarrow> 's option" where
  "UsageFault_Handler s = while_loop (\<lambda>s. (True, s)) (\<lambda>s. s) s"

definition DebugMon_Handler :: "'s \<Rightarrow> 's option" where
  "DebugMon_Handler s = while_loop (\<lambda>s. (True, s)) (\<lambda>s. s) s"

definition FPU_IRQHandler :: "'s \<Rightarrow> 's option" where
  "FPU_IRQHandler s = while_loop (\<lambda>s. (True, s)) (\<lambda>s. s) s"

datatype enet_periph = ENET0 | ENET1

datatype enet_int_flag =
    ENET_DMA_INT_FLAG_RS
  | ENET_DMA_INT_FLAG_NI
  | ENET_INT_FLAG_OTHER nat

datatype enet_int_flag_clear =
    ENET_DMA_INT_FLAG_RS_CLR
  | ENET_DMA_INT_FLAG_NI_CLR
  | ENET_INT_FLAG_CLR_OTHER nat

text \<open>
  What the handlers act on: the pending interrupt flags of the two Ethernet
  peripherals, and the calls made to FreeRTOS.
\<close>

record isr_state =
  enet_pending :: "enet_periph \<Rightarrow> enet_int_flag set"
  isr_trace :: "event list"

text \<open>
  Modelled from the spec: the Ethernet driver (\<^verbatim>\<open>enet_interrupt_flag_get\<close>,
  \<^verbatim>\<open>enet_interrupt_flag_clear\<close>) is not among the sources.  The first reads a pending
  flag, the second clears the pending flag that its argument names; the call of the
  second is recorded as well.
\<close>

definition enet_interrupt_flag_get :: "enet_periph \<Rightarrow> enet_int_flag \<Rightarrow> isr_state \<Rightarrow> FlagStatus" where
  "enet_interrupt_flag_get p f s = (if f \<in> enet_pending s p then SET else RESET)"

fun flag_of_clear :: "enet_int_flag_clear \<Rightarrow> enet_int_flag" where
  "flag_of_clear ENET_DMA_INT_FLAG_RS_CLR = ENET_DMA_INT_FLAG_RS"
| "flag_of_clear ENET_DMA_INT_FLAG_NI_CLR = ENET_DMA_INT_FLAG_NI"
| "flag_of_clear (ENET_INT_FLAG_CLR_OTHER n) = ENET_INT_FLAG_OTHER n"

fun periph_name :: "enet_periph \<Rightarrow> arg" where
  "periph_name ENET0 = Sym ''ENET0''"
| "periph_name ENET1 = Sym ''ENET1''"

fun clear_name :: "enet_int_flag_clear \<Rightarrow> arg" where
  "clear_name ENET_DMA_INT_FLAG_RS_CLR = Sym ''ENET_DMA_INT_FLAG_RS_CLR''"
| "clear_name ENET_DMA_INT_FLAG_NI_CLR = Sym ''ENET_DMA_INT_FLAG_NI_CLR''"
| "clear_name (ENET_INT_FLAG_CLR_OTHER n) = Num n"

definition enet_interrupt_flag_clear :: "enet_periph \<Rightarrow> enet_int_flag_clear \<Rightarrow> isr_state \<Rightarrow> isr_state" where
  "enet_interrupt_flag_clear p c s =
     s\<lparr>enet_pending := (enet_pending s)(p := enet_pending s p - {flag_of_clear c}),
       isr_trace := isr_trace s @ [Call ''enet_interrupt_flag_clear'' [periph_name p, clear_name c]]\<rparr>"

definition isr_call :: "string \<Rightarrow> arg list \<Rightarrow> isr_state \<Rightarrow> isr_state" where
  "isr_call f args s = s\<lparr>isr_trace := isr_trace s @ [Call f args]\<rparr>"

text \<open>
  The Ethernet handlers.  \<open>woken\<close> is what \<^verbatim>\<open>xSemaphoreGiveFromISR\<close> stores in
  \<^verbatim>\<open>xHigherPriorityTaskWoken\<close>, which starts as \<^verbatim>\<open>pdFALSE\<close>.
\<close>

definition ENET0_IRQHandler :: "bool \<Rightarrow> isr_state \<Rightarrow> isr_state" where
  "ENET0_IRQHandler woken s =
     (let xHigherPriorityTaskWoken = False;
          (xHigherPriorityTaskWoken, s) =
            (if SET = enet_interrupt_flag_get ENET0 ENET_DMA_INT_FLAG_RS s
             then (woken, isr_call ''xSemaphoreGiveFromISR'' [Sym ''g_rx_semaphore''] s)
             else (xHigherPriorityTaskWoken, s));
          s = enet_interrupt_flag_clear ENET0 ENET_DMA_INT_FLAG_RS_CLR s;
          s = enet_interrupt_flag_clear ENET0 ENET_DMA_INT_FLAG_NI_CLR s
      in if xHigherPriorityTaskWoken then isr_call ''portEND_SWITCHING_ISR'' [] s else s)"

definition ENET1_IRQHandler :: "bool \<Rightarrow> isr_state \<Rightarrow> isr_state" where
  "ENET1_IRQHandler woken s =
     (let xHigherPriorityTaskWoken = False;
          (xHigherPriorityTaskWoken, s) =
            (if SET = enet_interrupt_flag_get ENET1 ENET_DMA_INT_FLAG_RS s
             then (woken, isr_call ''xSemaphoreGiveFromISR'' [Sym ''g_rx_semaphore''] s)
             else (xHigherPriorityTaskWoken, s));
          s = enet_interrupt_flag_clear ENET1 ENET_DMA_INT_FLAG_RS_CLR s;
          s = enet_interrupt_flag_clear ENET1 ENET_DMA_INT_FLAG_NI_CLR s
      in if xHigherPriorityTaskWoken then isr_call ''portEND_SWITCHING_ISR'' [] s else s)"

section \<open>Network configuration of the raw web server demo (netconf.c)\<close>

datatype dhcp_addr_status_enum =
    DHCP_ADDR_NONE
  | DHCP_ADDR_BEGIN
  | DHCP_ADDR_GOT
  | DHCP_ADDR_FAIL

datatype netif_id = g_mynetif0 | g_mynetif1

definition DHCP_TRIES_MAX_TIMES :: nat where
  "DHCP_TRIES_MAX_TIMES = 3"





text \<open>
  lwIP keeps a state of its own, which holds the two interfaces and their DHCP clients.
  The program knows it through the functions it calls: their effect on that state and
  the two values read from an interface are inputs of the model.
\<close>

record 'l lwip_api =
  tcp_tmr :: "'l \<Rightarrow> 'l"
  etharp_tmr :: "'l \<Rightarrow> 'l"
  dhcp_fine_tmr :: "'l \<Rightarrow> 'l"
  dhcp_coarse_tmr :: "'l \<Rightarrow> 'l"
  dhcp_start :: "netif_id \<Rightarrow> 'l \<Rightarrow> 'l"
  dhcp_stop :: "netif_id \<Rightarrow> 'l \<Rightarrow> 'l"
  netif_set_addr :: "netif_id \<Rightarrow> u32 \<Rightarrow> u32 \<Rightarrow> u32 \<Rightarrow> 'l \<Rightarrow> 'l"
  netif_ip_addr :: "netif_id \<Rightarrow> 'l \<Rightarrow> u32"
  netif_dhcp_tries :: "netif_id \<Rightarrow> 'l \<Rightarrow> u8"

text \<open>
  The build: the preprocessor switches of netconf.c and the static address of the board
  (macros of main.h, which is not among the sources).
\<close>

record net_build =
  LWIP_TCP :: bool
  USE_DHCP :: bool
  USE_ENET0 :: bool
  USE_ENET1 :: bool
  BOARD_IP_ADDR :: "u8 \<times> u8 \<times> u8 \<times> u8"
  BOARD_NETMASK_ADDR :: "u8 \<times> u8 \<times> u8 \<times> u8"
  BOARD_GW_ADDR :: "u8 \<times> u8 \<times> u8 \<times> u8"

record 'l netconf =
  tcpcurtime :: u32
  arpcurtime :: u32
  finecurtime :: u32
  coarsecurtime :: u32
  dhcp_addr_status :: dhcp_addr_status_enum
  ip_address :: u32
  lwip :: 'l
  net_trace :: "event list"

text \<open>
  \<^verbatim>\<open>IP4_ADDR\<close> of lwIP on the little-endian target: the four bytes in memory order.
\<close>

definition IP4_ADDR :: "u8 \<times> u8 \<times> u8 \<times> u8 \<Rightarrow> u32" where
  "IP4_ADDR x =
     (case x of (a, b, c, d) \<Rightarrow>
        ucast a OR push_bit 8 (ucast b) OR push_bit 16 (ucast c) OR push_bit 24 (ucast d))"

definition ip4_addr_byte :: "nat \<Rightarrow> u32 \<Rightarrow> nat" where
  "ip4_addr_byte n a = unat (ucast (drop_bit (8 * n) a) :: u8)"

definition lwip_call :: "string \<Rightarrow> arg list \<Rightarrow> ('l \<Rightarrow> 'l) \<Rightarrow> 'l netconf \<Rightarrow> 'l netconf" where
  "lwip_call f args effect s =
     s\<lparr>lwip := effect (lwip s), net_trace := net_trace s @ [Call f args]\<rparr>"

fun netif_name :: "netif_id \<Rightarrow> arg" where
  "netif_name g_mynetif0 = Sym ''&g_mynetif0''"
| "netif_name g_mynetif1 = Sym ''&g_mynetif1''"

text \<open>
  The \<^verbatim>\<open>switch\<close> of \<^verbatim>\<open>lwip_dhcp_address_get\<close>; the source has it twice, for
  \<^verbatim>\<open>g_mynetif0\<close> under \<^verbatim>\<open>USE_ENET0\<close> and for \<^verbatim>\<open>g_mynetif1\<close> under
  \<^verbatim>\<open>USE_ENET1\<close>.
\<close>

definition dhcp_switch :: "'l lwip_api \<Rightarrow> net_build \<Rightarrow> netif_id \<Rightarrow> 'l netconf \<Rightarrow> 'l netconf" where
  "dhcp_switch api b nif s =
     (case dhcp_addr_status s of
        DHCP_ADDR_NONE \<Rightarrow>
          (lwip_call ''dhcp_start'' [netif_name nif] (dhcp_start api nif) s)
            \<lparr>dhcp_addr_status := DHCP_ADDR_BEGIN\<rparr>
      | DHCP_ADDR_BEGIN \<Rightarrow>
          let s = s\<lparr>ip_address := netif_ip_addr api nif (lwip s)\<rparr> in
          if 0 \<noteq> ip_address s then
            lwip_call ''printf''
              [Str (crlf @ ''DHCP -- eval board ip address: %d.%d.%d.%d '' @ crlf),
               Num (ip4_addr_byte 0 (ip_address s)), Num (ip4_addr_byte 1 (ip_address s)),
               Num (ip4_addr_byte 2 (ip_address s)), Num (ip4_addr_byte 3 (ip_address s))]
              (\<lambda>l. l) (s\<lparr>dhcp_addr_status := DHCP_ADDR_GOT\<rparr>)
          else if unat (netif_dhcp_tries api nif (lwip s)) > DHCP_TRIES_MAX_TIMES then
            let s = s\<lparr>dhcp_addr_status := DHCP_ADDR_FAIL\<rparr>;
                s = lwip_call ''dhcp_stop'' [netif_name nif] (dhcp_stop api nif) s;
                gd_ipaddr = IP4_ADDR (BOARD_IP_ADDR b);
                gd_netmask = IP4_ADDR (BOARD_NETMASK_ADDR b);
                gd_gw = IP4_ADDR (BOARD_GW_ADDR b)
            in lwip_call ''netif_set_addr''
                 [netif_name nif, Num (unat gd_ipaddr), Num (unat gd_netmask), Num (unat gd_gw)]
                 (netif_set_addr api nif gd_ipaddr gd_netmask gd_gw) s
          else s
      | DHCP_ADDR_GOT \<Rightarrow> s
      | DHCP_ADDR_FAIL \<Rightarrow> s)"

definition lwip_dhcp_address_get :: "'l lwip_api \<Rightarrow> net_build \<Rightarrow> 'l netconf \<Rightarrow> 'l netconf" where
  "lwip_dhcp_address_get api b s =
     (let s = (if USE_ENET0 b then dhcp_switch api b g_mynetif0 s else s)
      in if USE_ENET1 b then dhcp_switch api b g_mynetif1 s else s)"





section \<open>Notions used in the properties\<close>

text \<open>
  A polling loop that reads \<open>p\<close> from the hardware leaves only when \<open>p\<close> is false at
  some later read: \<open>wait_ends p\<close> says that this happens after every moment.
\<close>

definition wait_ends :: "(nat \<Rightarrow> bool) \<Rightarrow> bool" where
  "wait_ends p \<longleftrightarrow> (\<forall>t. \<exists>n. \<not> p (t + n))"

definition tamper_wait_ends :: "usb_world \<Rightarrow> bool" where
  "tamper_wait_ends w \<longleftrightarrow> wait_ends (\<lambda>t. connect_status w t \<and> SET = key_tamper w t)"

definition wakeup_wait_ends :: "usb_world \<Rightarrow> bool" where
  "wakeup_wait_ends w \<longleftrightarrow> wait_ends (\<lambda>t. connect_status w t \<and> RESET = key_wakeup w t)"

text \<open>The calls of a function in a trace, and their number.\<close>

fun callee :: "event \<Rightarrow> string" where
  "callee (Call f args) = f"

fun args_of :: "event \<Rightarrow> arg list" where
  "args_of (Call f args) = args"

definition calls_of :: "string \<Rightarrow> event list \<Rightarrow> arg list list" where
  "calls_of f tr = map args_of (filter (\<lambda>e. callee e = f) tr)"

text \<open>
  The number of entries listed in a trace: the lines printed with the format of a name
  (\<open>%s\<close>, then the end of the line), one for each entry.
\<close>

definition listed :: "event list \<Rightarrow> nat" where
  "listed tr =
     length (filter (\<lambda>args. take 1 args = [Str (''%s'' @ crlf)]) (calls_of ''LCD_UsrLog'' tr))"

text \<open>The condition of a polling loop: read \<open>p\<close> at the current moment.\<close>

definition poll :: "(nat \<Rightarrow> bool) \<Rightarrow> usbh \<Rightarrow> bool \<times> usbh" where
  "poll p s = (p (clock s), tick s)"

text \<open>
  The names of the entries of a listing that \<^verbatim>\<open>f_readdir\<close> returns with success and
  with the attribute byte \<open>AM_DIR\<close>.
\<close>

definition subdir_names :: "build \<Rightarrow> (FRESULT \<times> FILINFO) list \<Rightarrow> string list" where
  "subdir_names b dir =
     map (\<lambda>(r, fno). fname fno) (filter (\<lambda>(r, fno). r = FR_OK \<and> fattrib fno = AM_DIR b) dir)"

section \<open>Example inputs\<close>

text \<open>
  The state of the USB demo after reset, a build for the serial console, a memory stick
  with a directory, a hidden entry and a file whose user presses the keys at once, and
  a stick with five files whose user never touches a key.
\<close>

definition power_on :: usbh where
  "power_on = \<lparr>usbh_usr_application_state = USBH_USR_FS_INIT, line_idx = 0, res = FR_OK,
     startup = 0, toggle_i = 0, bytesWritten = 0, bytesToWrite = 0, bytesRead = 0,
     ReadTextBuff = [], clock = 0, trace = []\<rparr>"

definition com_build :: build where
  "com_build = \<lparr>USE_LCD = False, USE_ULPI_PHY = False, AM_DIR = 0x10\<rparr>"

definition stick :: usb_world where
  "stick = \<lparr>connect_status = (\<lambda>t. True), key_tamper = (\<lambda>t. RESET), key_wakeup = (\<lambda>t. SET),
     f_mount = FR_OK, usbh_msc_lun_info_get = (USBH_OK, 0x10000, 512),
     f_opendir = (\<lambda>p. FR_OK),
     f_readdir = (\<lambda>p. if p = ''0:/''
        then [(FR_OK, \<lparr>fname = ''DOCS'', fattrib = 0x10\<rparr>),
              (FR_OK, \<lparr>fname = ''.TRASH'', fattrib = 0x10\<rparr>),
              (FR_OK, \<lparr>fname = ''A.TXT'', fattrib = 0x20\<rparr>)]
        else [(FR_OK, \<lparr>fname = ''B.TXT'', fattrib = 0x20\<rparr>)]),
     f_open_write = FR_OK, f_write = (FR_OK, 46), f_open_read = FR_OK,
     f_read = (FR_OK, 46, WriteTextBuff)\<rparr>"

definition idle_user :: usb_world where
  "idle_user = stick\<lparr>key_tamper := (\<lambda>t. SET), key_wakeup := (\<lambda>t. RESET),
     f_readdir := (\<lambda>p. [(FR_OK, \<lparr>fname = ''1.TXT'', fattrib = 0x20\<rparr>),
                         (FR_OK, \<lparr>fname = ''2.TXT'', fattrib = 0x20\<rparr>),
                         (FR_OK, \<lparr>fname = ''3.TXT'', fattrib = 0x20\<rparr>),
                         (FR_OK, \<lparr>fname = ''4.TXT'', fattrib = 0x20\<rparr>),
                         (FR_OK, \<lparr>fname = ''5.TXT'', fattrib = 0x20\<rparr>)])\<rparr>"


definition board :: net_build where
  "board = \<lparr>LWIP_TCP = True, USE_DHCP = True, USE_ENET0 = True, USE_ENET1 = False,
     BOARD_IP_ADDR = (192, 168, 1, 10), BOARD_NETMASK_ADDR = (255, 255, 255, 0),
     BOARD_GW_ADDR = (192, 168, 1, 1)\<rparr>"






section \<open>The while loop\<close>

lemma while_loop_Some_stops:
  "while_loop c body s = Some s' \<Longrightarrow> \<exists>n. \<not> fst (c (((\<lambda>s. body (snd (c s))) ^^ n) s))"
proof (induction rule: while_loop.raw_induct[rotated 1, consumes 1])
  case (1 while_loop c body s s')
  define f where "f = (\<lambda>s. body (snd (c s)))"
  show ?case
  proof (cases "fst (c s)")
    case True
    with 1(2) have "while_loop c body (f s) = Some s'"
      by (simp add: f_def)
    from 1(1)[OF this] obtain n where "\<not> fst (c ((f ^^ n) (f s)))"
      unfolding f_def by blast
    then have "\<not> fst (c ((f ^^ Suc n) s))"
      by (simp add: funpow_Suc_right del: funpow.simps)
    then show ?thesis unfolding f_def by blast
  next
    case False
    then have "\<not> fst (c ((f ^^ 0) s))" by simp
    then show ?thesis unfolding f_def by blast
  qed
qed

lemma while_loop_rule:
  assumes "while_loop c body s = Some s'" and "I s"
    and "\<And>s. I s \<Longrightarrow> fst (c s) \<Longrightarrow> I (body (snd (c s)))"
    and "\<And>s. I s \<Longrightarrow> \<not> fst (c s) \<Longrightarrow> Q (snd (c s))"
  shows "Q s'"
proof -
  have "while_loop c body s = Some s' \<Longrightarrow>
        (\<forall>s. I s \<longrightarrow> fst (c s) \<longrightarrow> I (body (snd (c s)))) \<longrightarrow>
        (\<forall>s. I s \<longrightarrow> \<not> fst (c s) \<longrightarrow> Q (snd (c s))) \<longrightarrow> I s \<longrightarrow> Q s'"
  proof (induction rule: while_loop.raw_induct[rotated 1, consumes 1])
    case (1 while_loop c body s s')
    then show ?case by (auto split: if_splits)
  qed
  with assms show ?thesis by blast
qed

lemma while_loop_None:
  "(\<forall>n. fst (c (((\<lambda>s. body (snd (c s))) ^^ n) s))) \<Longrightarrow> while_loop c body s = None"
  using while_loop_Some_stops[of c body s] by (cases "while_loop c body s") auto

section \<open>Properties of the USB host demo\<close>

lemma calls_of_append [simp]: "calls_of f (xs @ ys) = calls_of f xs @ calls_of f ys"
  by (simp add: calls_of_def)

lemma calls_of_Nil [simp]: "calls_of f [] = []"
  by (simp add: calls_of_def)

lemma calls_of_Cons [simp]:
  "calls_of f (Call g args # tr) = (if g = f then args # calls_of f tr else calls_of f tr)"
  by (simp add: calls_of_def)

lemma trace_call [simp]: "trace (call f args s) = trace s @ [Call f args]"
  and line_idx_call [simp]: "line_idx (call f args s) = line_idx s"
  and state_call [simp]: "usbh_usr_application_state (call f args s) = usbh_usr_application_state s"
  and clock_call [simp]: "clock (call f args s) = clock s"
  and res_call [simp]: "res (call f args s) = res s"
  and startup_call [simp]: "startup (call f args s) = startup s"
  by (simp_all add: call_def)

lemma trace_tick [simp]: "trace (tick s) = trace s"
  and line_idx_tick [simp]: "line_idx (tick s) = line_idx s"
  and state_tick [simp]: "usbh_usr_application_state (tick s) = usbh_usr_application_state s"
  and clock_tick [simp]: "clock (tick s) = Suc (clock s)"
  and res_tick [simp]: "res (tick s) = res s"
  by (simp_all add: tick_def)

lemma line_idx_toggle_leds [simp]: "line_idx (toggle_leds b s) = line_idx s"
  and state_toggle_leds [simp]:
    "usbh_usr_application_state (toggle_leds b s) = usbh_usr_application_state s"
  and clock_toggle_leds [simp]: "clock (toggle_leds b s) = clock s"
  and res_toggle_leds [simp]: "res (toggle_leds b s) = res s"
  and opendir_toggle_leds [simp]:
    "calls_of ''f_opendir'' (trace (toggle_leds b s)) = calls_of ''f_opendir'' (trace s)"
  by (simp_all add: toggle_leds_def Let_def)

text \<open>A polling wait: what it keeps, and when it ends.\<close>

lemma fst_poll [simp]: "fst (poll p s) = p (clock s)"
  and snd_poll [simp]: "snd (poll p s) = tick s"
  by (simp_all add: poll_def)

lemma tamper_cond_poll: "tamper_cond w = poll (\<lambda>t. connect_status w t \<and> SET = key_tamper w t)"
  by (rule ext) (simp add: tamper_cond_def poll_def)

lemma wakeup_cond_poll: "wakeup_cond w = poll (\<lambda>t. connect_status w t \<and> RESET = key_wakeup w t)"
  by (rule ext) (simp add: wakeup_cond_def poll_def)

lemma poll_keeps:
  assumes "while_loop (poll p) (toggle_leds b) s = Some s'"
  shows "line_idx s' = line_idx s \<and>
         usbh_usr_application_state s' = usbh_usr_application_state s \<and>
         res s' = res s \<and>
         calls_of ''f_opendir'' (trace s') = calls_of ''f_opendir'' (trace s)"
  by (rule while_loop_rule [OF assms,
        where I = "\<lambda>x. line_idx x = line_idx s \<and>
          usbh_usr_application_state x = usbh_usr_application_state s \<and> res x = res s \<and>
          calls_of ''f_opendir'' (trace x) = calls_of ''f_opendir'' (trace s)"])
     simp_all

lemma poll_ends:
  "\<not> p (clock s + n) \<Longrightarrow> \<exists>s'. while_loop (poll p) (toggle_leds b) s = Some s'"
proof (induction n arbitrary: s)
  case 0
  then show ?case by (subst while_loop.simps) simp
next
  case (Suc n)
  from Suc.prems have "\<not> p (clock (toggle_leds b (tick s)) + n)" by simp
  from Suc.IH [OF this] show ?case
    by (subst while_loop.simps) simp
qed

lemma poll_wait_ends:
  "wait_ends p \<Longrightarrow> \<exists>s'. while_loop (poll p) (toggle_leds b) s = Some s'"
  unfolding wait_ends_def using poll_ends [of p s] by blast

lemma poll_forever:
  assumes "\<forall>t. p t"
  shows "while_loop (poll p) (toggle_leds b) s = None"
  by (rule while_loop_None) (simp add: assms)

lemma list_entry_returns:
  assumes "tamper_wait_ends w"
  shows "\<exists>s'. list_entry b w recu_level fno s = Some s'"
proof -
  have "\<exists>s'. while_loop (tamper_cond w) (toggle_leds b) x = Some s'" for x
    using assms unfolding tamper_wait_ends_def tamper_cond_poll by (rule poll_wait_ends)
  then show ?thesis
    unfolding list_entry_def Let_def by (auto split: if_splits) (metis bind.bind_lunit)+
qed

lemma list_entry_keeps:
  assumes "list_entry b w recu_level fno s = Some s'"
  shows "line_idx s' = (if 4 < line_idx s + 1 then 0 else line_idx s + 1)"
    and "usbh_usr_application_state s' = usbh_usr_application_state s"
    and "calls_of ''f_opendir'' (trace s') = calls_of ''f_opendir'' (trace s)"
  using assms unfolding list_entry_def Let_def tamper_cond_poll
  by (auto split: if_splits bind_splits dest!: poll_keeps)

lemma list_entry_line_idx:
  assumes "list_entry b w recu_level fno s = Some s'"
  shows "line_idx s' \<le> 4"
  using list_entry_keeps(1) [OF assms] by (simp add: not_less)

lemma explore_returns:
  assumes "tamper_wait_ends w"
  shows "\<exists>s'. explore_loop b w recu_level dir s = Some s'"
    and "\<exists>r s'. explore_disk b w path recu_level s = Some (r, s')"
  using assms
proof (induction b w recu_level dir s and b w path recu_level s
       rule: explore_loop_explore_disk.induct)
  case (1 b w recu_level s)
  show ?case by simp
next
  case (2 b w recu_level r fno dir s)
  define x where "x = (call ''f_readdir'' [] (tick s))\<lparr>res := r\<rparr>"
  show ?case
  proof (cases "\<not> connect_status w (clock s) \<or> FR_OK \<noteq> r \<or> fname fno = []")
    case True
    then show ?thesis by (auto simp: Let_def)
  next
    case go: False
    show ?thesis
    proof (cases "CHR ''.'' = hd (fname fno)")
      case True
      with go "2.IH"(1) [OF _ x_def] "2.prems" show ?thesis
        by (simp add: Let_def x_def)
    next
      case nodot: False
      from list_entry_returns [OF "2.prems"] obtain a
        where a: "list_entry b w recu_level fno x = Some a" by blast
      have "\<exists>aa. (if AM_DIR b = fattrib fno \<and> 1 = recu_level
                   then explore_disk b w (fname fno) 2 a \<bind> (\<lambda>(r, y). Some y)
                   else Some a) = Some aa"
      proof (cases "AM_DIR b = fattrib fno \<and> 1 = recu_level")
        case True
        with go nodot "2.IH"(2) [OF _ x_def _ _ a] "2.prems"
        obtain r' s' where "explore_disk b w (fname fno) 2 a = Some (r', s')" by auto
        with True show ?thesis by simp
      next
        case False
        then show ?thesis by auto
      qed
      then obtain aa where aa: "(if AM_DIR b = fattrib fno \<and> 1 = recu_level
                   then explore_disk b w (fname fno) 2 a \<bind> (\<lambda>(r, y). Some y)
                   else Some a) = Some aa" by blast
      from go nodot "2.IH"(3) [OF _ x_def _ _ a aa] "2.prems"
      obtain s' where "explore_loop b w recu_level dir aa = Some s'" by auto
      with go nodot a aa show ?thesis
        by (auto simp: Let_def x_def)
    qed
  qed
next
  case (3 b w path recu_level s)
  define x where "x = (call ''f_opendir'' [Str path] s)\<lparr>res := f_opendir w path\<rparr>"
  show ?case
  proof (cases "res x = FR_OK")
    case True
    from "3.IH" [OF x_def True] "3.prems"
    obtain s' where "explore_loop b w recu_level (f_readdir w path) x = Some s'" by auto
    with True show ?thesis by (simp add: Let_def x_def [symmetric])
  next
    case False
    then show ?thesis by (simp add: Let_def x_def [symmetric])
  qed
qed

text \<open>
  A property of the state that every step of the traversal keeps holds at its end.
\<close>

lemma explore_invariant_aux:
  fixes I :: "usbh \<Rightarrow> bool"
  assumes "\<forall>s. I s \<longrightarrow> I (tick s)"
    and "\<forall>s r. I s \<longrightarrow> I ((call ''f_readdir'' [] s)\<lparr>res := r\<rparr>)"
    and "\<forall>s p r. I s \<longrightarrow> I ((call ''f_opendir'' [Str p] s)\<lparr>res := r\<rparr>)"
  shows "explore_loop b w recu_level dir s = Some s' \<Longrightarrow>
           (\<forall>s l fno a. I s \<longrightarrow> list_entry b w l fno s = Some a \<longrightarrow> I a) \<Longrightarrow> I s \<Longrightarrow> I s'"
    and "explore_disk b w path recu_level s = Some (r, s') \<Longrightarrow>
           (\<forall>s l fno a. I s \<longrightarrow> list_entry b w l fno s = Some a \<longrightarrow> I a) \<Longrightarrow> I s \<Longrightarrow> I s'"
proof (induction b w recu_level dir s and b w path recu_level s arbitrary: s' and r s'
       rule: explore_loop_explore_disk.induct)
  case (1 b w recu_level s)
  with assms(1,2) show ?case by (auto split: if_splits)
next
  case (2 b w recu_level r fno dir s)
  define x where "x = (call ''f_readdir'' [] (tick s))\<lparr>res := r\<rparr>"
  from assms(1,2) "2.prems"(3) have Ix: "I x" and It: "I (tick s)"
    unfolding x_def by blast+
  show ?case
  proof (cases "\<not> connect_status w (clock s) \<or> FR_OK \<noteq> r \<or> fname fno = []")
    case True
    with "2.prems"(1) Ix It show ?thesis by (auto simp: Let_def x_def split: if_splits)
  next
    case go: False
    show ?thesis
    proof (cases "CHR ''.'' = hd (fname fno)")
      case True
      with go "2.prems"(1) have "explore_loop b w recu_level dir x = Some s'"
        by (simp add: Let_def x_def)
      with go True "2.IH"(1) [OF _ x_def _ _ _ "2.prems"(2) Ix] show ?thesis by blast
    next
      case nodot: False
      from go nodot "2.prems"(1) obtain a aa
        where a: "list_entry b w recu_level fno x = Some a"
          and aa: "(if AM_DIR b = fattrib fno \<and> 1 = recu_level
                    then explore_disk b w (fname fno) 2 a \<bind> (\<lambda>(r, y). Some y)
                    else Some a) = Some aa"
          and s': "explore_loop b w recu_level dir aa = Some s'"
        by (auto simp: Let_def x_def split: bind_splits)
      from a Ix "2.prems"(2) have Ia: "I a" by blast
      have Iaa: "I aa"
      proof (cases "AM_DIR b = fattrib fno \<and> 1 = recu_level")
        case True
        with aa obtain r' where "explore_disk b w (fname fno) 2 a = Some (r', aa)"
          by (auto split: bind_splits)
        from "2.IH"(2) [OF _ x_def _ _ a True this "2.prems"(2) Ia] go nodot
        show ?thesis by blast
      next
        case False
        with aa Ia show ?thesis by (auto split: if_splits)
      qed
      from "2.IH"(3) [OF _ x_def _ _ a aa s' "2.prems"(2) Iaa] go nodot
      show ?thesis by blast
    qed
  qed
next
  case (3 b w path recu_level s)
  define x where "x = (call ''f_opendir'' [Str path] s)\<lparr>res := f_opendir w path\<rparr>"
  from assms(3) "3.prems"(3) have Ix: "I x" unfolding x_def by blast
  show ?case
  proof (cases "res x = FR_OK")
    case True
    with "3.prems"(1) have "explore_loop b w recu_level (f_readdir w path) x = Some s'"
      by (auto simp: Let_def x_def split: bind_splits)
    from "3.IH" [OF x_def True this "3.prems"(2) Ix] show ?thesis .
  next
    case False
    with "3.prems"(1) Ix show ?thesis by (auto simp: Let_def x_def)
  qed
qed

lemma explore_disk_state:
  assumes "explore_disk b w path recu_level s = Some (r, s')"
  shows "usbh_usr_application_state s' = usbh_usr_application_state s"
  by (rule explore_invariant_aux(2) [OF _ _ _ assms,
        where I = "\<lambda>x. usbh_usr_application_state x = usbh_usr_application_state s"])
     (auto dest: list_entry_keeps(2))

lemma explore_loop_line_idx:
  assumes "explore_loop b w recu_level dir s = Some s'" and "line_idx s \<le> 4"
  shows "line_idx s' \<le> 4"
  by (rule explore_invariant_aux(1) [where I = "\<lambda>x. line_idx x \<le> 4",
        OF _ _ _ assms(1) _ assms(2)])
     (auto dest: list_entry_line_idx)

lemma explore_disk_line_idx:
  assumes "explore_disk b w path recu_level s = Some (r, s')" and "line_idx s \<le> 4"
  shows "line_idx s' \<le> 4"
  by (rule explore_invariant_aux(2) [where I = "\<lambda>x. line_idx x \<le> 4",
        OF _ _ _ assms(1) _ assms(2)])
     (auto dest: list_entry_line_idx)

lemma subdir_names_Cons:
  "set (subdir_names b dir) \<subseteq> set (subdir_names b (e # dir))"
  by (auto simp: subdir_names_def)

text \<open>
  The directories that the traversal opens: its own, and at level 1 those of entries
  with the attribute \<open>AM_DIR\<close>; at another level none.
\<close>

lemma explore_opens:
  shows "explore_loop b w recu_level dir s = Some s' \<Longrightarrow>
           \<exists>subs. calls_of ''f_opendir'' (trace s') = calls_of ''f_opendir'' (trace s) @ subs \<and>
                  (recu_level \<noteq> 1 \<longrightarrow> subs = []) \<and>
                  set subs \<subseteq> (\<lambda>n. [Str n]) ` set (subdir_names b dir)"
    and "explore_disk b w path recu_level s = Some (r, s') \<Longrightarrow>
           \<exists>subs. calls_of ''f_opendir'' (trace s') =
                    calls_of ''f_opendir'' (trace s) @ [Str path] # subs \<and>
                  (recu_level \<noteq> 1 \<longrightarrow> subs = []) \<and>
                  set subs \<subseteq> (\<lambda>n. [Str n]) ` set (subdir_names b (f_readdir w path))"
proof (induction b w recu_level dir s and b w path recu_level s arbitrary: s' and r s'
       rule: explore_loop_explore_disk.induct)
  case (1 b w recu_level s)
  then show ?case by (auto split: if_splits)
next
  case (2 b w recu_level r fno dir s)
  define x where "x = (call ''f_readdir'' [] (tick s))\<lparr>res := r\<rparr>"
  have x: "calls_of ''f_opendir'' (trace x) = calls_of ''f_opendir'' (trace s)"
    by (simp add: x_def)
  note mono = subdir_names_Cons [of b dir "(r, fno)"]
  show ?case
  proof (cases "\<not> connect_status w (clock s) \<or> FR_OK \<noteq> r \<or> fname fno = []")
    case True
    with "2.prems" show ?thesis by (auto simp: Let_def split: if_splits)
  next
    case go: False
    show ?thesis
    proof (cases "CHR ''.'' = hd (fname fno)")
      case True
      with go "2.prems" have "explore_loop b w recu_level dir x = Some s'"
        by (simp add: Let_def x_def)
      from "2.IH"(1) [OF _ x_def _ _ this] go True x mono show ?thesis
        by (auto simp del: explore_loop.simps) blast
    next
      case nodot: False
      from go nodot "2.prems" obtain a aa
        where a: "list_entry b w recu_level fno x = Some a"
          and aa: "(if AM_DIR b = fattrib fno \<and> 1 = recu_level
                    then explore_disk b w (fname fno) 2 a \<bind> (\<lambda>(r, y). Some y)
                    else Some a) = Some aa"
          and s': "explore_loop b w recu_level dir aa = Some s'"
        by (auto simp: Let_def x_def split: bind_splits)
      from list_entry_keeps(3) [OF a] x
      have xa: "calls_of ''f_opendir'' (trace a) = calls_of ''f_opendir'' (trace s)" by simp
      from "2.IH"(3) [OF _ x_def _ _ a aa s'] go nodot obtain subs
        where subs: "calls_of ''f_opendir'' (trace s') = calls_of ''f_opendir'' (trace aa) @ subs"
          "recu_level \<noteq> 1 \<longrightarrow> subs = []"
          "set subs \<subseteq> (\<lambda>n. [Str n]) ` set (subdir_names b dir)"
        by blast
      show ?thesis
      proof (cases "AM_DIR b = fattrib fno \<and> 1 = recu_level")
        case True
        with aa obtain r' where "explore_disk b w (fname fno) 2 a = Some (r', aa)"
          by (auto split: bind_splits)
        from "2.IH"(2) [OF _ x_def _ _ a True this] go nodot
        have "calls_of ''f_opendir'' (trace aa) =
                calls_of ''f_opendir'' (trace a) @ [[Str (fname fno)]]" by auto
        with subs xa have "calls_of ''f_opendir'' (trace s') =
                calls_of ''f_opendir'' (trace s) @ ([Str (fname fno)] # subs)" by simp
        moreover from go True have "fname fno \<in> set (subdir_names b ((r, fno) # dir))"
          by (auto simp: subdir_names_def)
        ultimately show ?thesis using subs(3) mono True
          by (intro exI [of _ "[Str (fname fno)] # subs"]) auto
      next
        case False
        with aa have "aa = a" by (auto split: if_splits)
        with subs xa mono show ?thesis
          by (intro exI [of _ subs]) auto
      qed
    qed
  qed
next
  case (3 b w path recu_level s)
  define x where "x = (call ''f_opendir'' [Str path] s)\<lparr>res := f_opendir w path\<rparr>"
  have x: "calls_of ''f_opendir'' (trace x) = calls_of ''f_opendir'' (trace s) @ [[Str path]]"
    by (simp add: x_def)
  show ?case
  proof (cases "res x = FR_OK")
    case True
    with "3.prems" have "explore_loop b w recu_level (f_readdir w path) x = Some s'"
      by (auto simp: Let_def x_def split: bind_splits)
    from "3.IH" [OF x_def True this] x show ?thesis by auto
  next
    case False
    with "3.prems" x show ?thesis by (auto simp: Let_def x_def)
  qed
qed

lemma app_INIT:
  assumes "usbh_usr_application_state s = USBH_USR_FS_INIT"
  shows "f_mount w = FR_OK \<Longrightarrow>
           \<exists>s'. usbh_usr_msc_application b w s = Some (0, s') \<and>
                usbh_usr_application_state s' = USBH_USR_FS_READLIST"
    and "f_mount w \<noteq> FR_OK \<Longrightarrow>
           \<exists>s'. usbh_usr_msc_application b w s = Some (- 1, s') \<and>
                usbh_usr_application_state s' = USBH_USR_FS_INIT"
  using assms
  by (auto simp: usbh_usr_msc_application_def Let_def split: prod.splits)

lemma app_READLIST_Some:
  assumes "usbh_usr_application_state s = USBH_USR_FS_READLIST"
    and "usbh_usr_msc_application b w s = Some (r, s')"
  shows "r = 0 \<and> usbh_usr_application_state s' = USBH_USR_FS_WRITEFILE \<and> line_idx s' = 0"
  using assms
  by (auto simp: usbh_usr_msc_application_def Let_def split: bind_splits)

lemma app_READLIST_returns:
  assumes "usbh_usr_application_state s = USBH_USR_FS_READLIST"
    and "tamper_wait_ends w"
  shows "\<exists>r s'. usbh_usr_msc_application b w s = Some (r, s')"
proof -
  have wait: "\<exists>s'. while_loop (tamper_cond w) (toggle_leds b) x = Some s'" for x
    using assms(2) unfolding tamper_wait_ends_def tamper_cond_poll by (rule poll_wait_ends)
  define x where "x = (let s = call ''LCD_UsrLog'' [Str (''> Exploring disk flash ...'' @ crlf)] s
    in if USE_LCD b then
                     call ''lcd_vertical_string_display''
                       [Sym ''LCD_HINT_LINE2'', Num 0, Str ''Press Tamper Key...            '']
                       (call ''lcd_vertical_string_display''
                          [Sym ''LCD_HINT_LINE1'', Num 0,
                           Str ''To see the root content of disk'']
                          (call ''lcd_text_color_set'' [Sym ''LCD_COLOR_GREEN''] s))
                   else
                     call ''LCD_UsrLog'' [Str (''>>> Press Tamper Key...'' @ crlf)]
                       (call ''LCD_UsrLog''
                          [Str (''>>> To see the root content of disk '' @ crlf)] s))"
  from wait obtain y where y: "while_loop (tamper_cond w) (toggle_leds b) x = Some y" by blast
  from explore_returns(2) [OF assms(2)] obtain r z
    where z: "explore_disk b w ''0:/'' 1 y = Some (r, z)" by blast
  from assms(1) y z show ?thesis
    unfolding usbh_usr_msc_application_def x_def Let_def by simp
qed

lemma app_WRITEFILE_Some:
  assumes "usbh_usr_application_state s = USBH_USR_FS_WRITEFILE"
    and "usbh_usr_msc_application b w s = Some (r, s')"
  shows "r = 0 \<and> usbh_usr_application_state s' = USBH_USR_FS_DEMOEND"
  using assms
  by (auto simp: usbh_usr_msc_application_def Let_def split: bind_splits)

lemma app_WRITEFILE_returns:
  assumes "usbh_usr_application_state s = USBH_USR_FS_WRITEFILE"
    and "wakeup_wait_ends w"
  shows "\<exists>r s'. usbh_usr_msc_application b w s = Some (r, s')"
proof -
  have wait: "\<exists>s'. while_loop (wakeup_cond w) (toggle_leds b) x = Some s'" for x
    using assms(2) unfolding wakeup_wait_ends_def wakeup_cond_poll by (rule poll_wait_ends)
  from assms(1) show ?thesis
    unfolding usbh_usr_msc_application_def
    by (simp add: bind_eq_Some_conv Let_def wait)
qed

lemma app_other:
  assumes "usbh_usr_application_state s \<noteq> USBH_USR_FS_INIT"
    and "usbh_usr_application_state s \<noteq> USBH_USR_FS_READLIST"
    and "usbh_usr_application_state s \<noteq> USBH_USR_FS_WRITEFILE"
  shows "usbh_usr_msc_application b w s = Some (0, s)"
  using assms
  by (cases "usbh_usr_application_state s") (simp_all add: usbh_usr_msc_application_def)


lemma stick_wait_ends: "tamper_wait_ends stick" "wakeup_wait_ends stick"
  by (simp_all add: tamper_wait_ends_def wakeup_wait_ends_def wait_ends_def stick_def)

lemma wait_forever:
  "\<forall>t. connect_status w t \<and> SET = key_tamper w t \<Longrightarrow>
     while_loop (tamper_cond w) (toggle_leds b) s = None"
  "\<forall>t. connect_status w t \<and> RESET = key_wakeup w t \<Longrightarrow>
     while_loop (wakeup_cond w) (toggle_leds b) s = None"
  unfolding tamper_cond_poll wakeup_cond_poll by (rule poll_forever, simp)+

subsection \<open>The state machine of the demo\<close>

text \<open>
  C1, as amended.  A call of \<^verbatim>\<open>usbh_usr_msc_application\<close> moves the demo along
  \<open>USBH_USR_FS_INIT\<close>, \<open>USBH_USR_FS_READLIST\<close>, \<open>USBH_USR_FS_WRITEFILE\<close>,
  \<open>USBH_USR_FS_DEMOEND\<close>: entered in \<open>USBH_USR_FS_INIT\<close> with a successful
  \<^verbatim>\<open>f_mount\<close> it returns in \<open>USBH_USR_FS_READLIST\<close>; entered in
  \<open>USBH_USR_FS_READLIST\<close> it returns, in \<open>USBH_USR_FS_WRITEFILE\<close>, provided that
  every wait for the Tamper key ends; entered in \<open>USBH_USR_FS_WRITEFILE\<close> it returns,
  in \<open>USBH_USR_FS_DEMOEND\<close> whatever the file operations report, provided that the
  wait for the Wakeup key ends; entered in \<open>USBH_USR_FS_DEMOEND\<close> it returns at once
  and changes nothing.  Whenever a call entered in \<open>USBH_USR_FS_READLIST\<close> or
  \<open>USBH_USR_FS_WRITEFILE\<close> returns, the state is the next one.
\<close>

theorem msc_application_state_sequence:
  "(usbh_usr_application_state s = USBH_USR_FS_INIT \<and> f_mount w = FR_OK \<longrightarrow>
      (\<exists>s'. usbh_usr_msc_application b w s = Some (0, s') \<and>
            usbh_usr_application_state s' = USBH_USR_FS_READLIST)) \<and>
   (usbh_usr_application_state s = USBH_USR_FS_READLIST \<and> tamper_wait_ends w \<longrightarrow>
      (\<exists>s'. usbh_usr_msc_application b w s = Some (0, s') \<and>
            usbh_usr_application_state s' = USBH_USR_FS_WRITEFILE)) \<and>
   (usbh_usr_application_state s = USBH_USR_FS_WRITEFILE \<and> wakeup_wait_ends w \<longrightarrow>
      (\<exists>s'. usbh_usr_msc_application b w s = Some (0, s') \<and>
            usbh_usr_application_state s' = USBH_USR_FS_DEMOEND)) \<and>
   (usbh_usr_application_state s = USBH_USR_FS_DEMOEND \<longrightarrow>
      usbh_usr_msc_application b w s = Some (0, s)) \<and>
   (\<forall>r s'. usbh_usr_msc_application b w s = Some (r, s') \<longrightarrow>
      (usbh_usr_application_state s = USBH_USR_FS_READLIST \<longrightarrow>
         usbh_usr_application_state s' = USBH_USR_FS_WRITEFILE) \<and>
      (usbh_usr_application_state s = USBH_USR_FS_WRITEFILE \<longrightarrow>
         usbh_usr_application_state s' = USBH_USR_FS_DEMOEND))"
proof (intro conjI impI allI)
  assume "usbh_usr_application_state s = USBH_USR_FS_INIT \<and> f_mount w = FR_OK"
  then show "\<exists>s'. usbh_usr_msc_application b w s = Some (0, s') \<and>
            usbh_usr_application_state s' = USBH_USR_FS_READLIST"
    using app_INIT(1) by blast
next
  assume a: "usbh_usr_application_state s = USBH_USR_FS_READLIST \<and> tamper_wait_ends w"
  then obtain r s' where "usbh_usr_msc_application b w s = Some (r, s')"
    using app_READLIST_returns by blast
  with a app_READLIST_Some [of s b w r s']
  show "\<exists>s'. usbh_usr_msc_application b w s = Some (0, s') \<and>
            usbh_usr_application_state s' = USBH_USR_FS_WRITEFILE"
    by auto
next
  assume a: "usbh_usr_application_state s = USBH_USR_FS_WRITEFILE \<and> wakeup_wait_ends w"
  then obtain r s' where "usbh_usr_msc_application b w s = Some (r, s')"
    using app_WRITEFILE_returns by blast
  with a app_WRITEFILE_Some [of s b w r s']
  show "\<exists>s'. usbh_usr_msc_application b w s = Some (0, s') \<and>
            usbh_usr_application_state s' = USBH_USR_FS_DEMOEND"
    by auto
next
  assume "usbh_usr_application_state s = USBH_USR_FS_DEMOEND"
  then show "usbh_usr_msc_application b w s = Some (0, s)"
    by (simp add: app_other)
next
  fix r s'
  assume "usbh_usr_msc_application b w s = Some (r, s')"
    and "usbh_usr_application_state s = USBH_USR_FS_READLIST"
  then show "usbh_usr_application_state s' = USBH_USR_FS_WRITEFILE"
    using app_READLIST_Some by blast
next
  fix r s'
  assume "usbh_usr_msc_application b w s = Some (r, s')"
    and "usbh_usr_application_state s = USBH_USR_FS_WRITEFILE"
  then show "usbh_usr_application_state s' = USBH_USR_FS_DEMOEND"
    using app_WRITEFILE_Some by blast
qed

theorem msc_application_state_sequence_witness:
  "(usbh_usr_application_state power_on = USBH_USR_FS_INIT \<and> f_mount stick = FR_OK \<and>
      (\<exists>s'. usbh_usr_msc_application com_build stick power_on = Some (0, s') \<and>
            usbh_usr_application_state s' = USBH_USR_FS_READLIST)) \<and>
   (tamper_wait_ends stick \<and>
      (\<exists>s'. usbh_usr_msc_application com_build stick
              (power_on\<lparr>usbh_usr_application_state := USBH_USR_FS_READLIST\<rparr>) = Some (0, s') \<and>
            usbh_usr_application_state s' = USBH_USR_FS_WRITEFILE)) \<and>
   (wakeup_wait_ends stick \<and>
      (\<exists>s'. usbh_usr_msc_application com_build stick
              (power_on\<lparr>usbh_usr_application_state := USBH_USR_FS_WRITEFILE\<rparr>) = Some (0, s') \<and>
            usbh_usr_application_state s' = USBH_USR_FS_DEMOEND)) \<and>
   usbh_usr_msc_application com_build stick
     (power_on\<lparr>usbh_usr_application_state := USBH_USR_FS_DEMOEND\<rparr>) =
     Some (0, power_on\<lparr>usbh_usr_application_state := USBH_USR_FS_DEMOEND\<rparr>)"
  using msc_application_state_sequence [of power_on stick com_build]
    msc_application_state_sequence [of
      "power_on\<lparr>usbh_usr_application_state := USBH_USR_FS_READLIST\<rparr>" stick com_build]
    msc_application_state_sequence [of
      "power_on\<lparr>usbh_usr_application_state := USBH_USR_FS_WRITEFILE\<rparr>" stick com_build]
    msc_application_state_sequence [of
      "power_on\<lparr>usbh_usr_application_state := USBH_USR_FS_DEMOEND\<rparr>" stick com_build]
    stick_wait_ends
  by (simp add: power_on_def stick_def)

theorem msc_application_blocked_in_readlist:
  "usbh_usr_application_state (power_on\<lparr>usbh_usr_application_state := USBH_USR_FS_READLIST\<rparr>) =
     USBH_USR_FS_READLIST \<and>
   usbh_usr_msc_application com_build idle_user
     (power_on\<lparr>usbh_usr_application_state := USBH_USR_FS_READLIST\<rparr>) = None"
  by (simp add: usbh_usr_msc_application_def wait_forever Let_def idle_user_def stick_def
        power_on_def com_build_def call_def tick_def)

text \<open>
  C2, as amended.  When \<^verbatim>\<open>usbh_usr_msc_application\<close> returns, it returns \<open>-1\<close>
  if and only if it was entered in \<open>USBH_USR_FS_INIT\<close> and \<^verbatim>\<open>f_mount\<close> failed, and
  then the state is still \<open>USBH_USR_FS_INIT\<close>; otherwise it returns \<open>0\<close>.  It does
  return for every entry state, provided that a call entered in
  \<open>USBH_USR_FS_READLIST\<close> sees its waits for the Tamper key end and a call entered in
  \<open>USBH_USR_FS_WRITEFILE\<close> sees its wait for the Wakeup key end.
\<close>

theorem msc_application_return_value:
  "(\<forall>r s'. usbh_usr_msc_application b w s = Some (r, s') \<longrightarrow>
      (r = - 1 \<longleftrightarrow> usbh_usr_application_state s = USBH_USR_FS_INIT \<and> f_mount w \<noteq> FR_OK) \<and>
      (r = - 1 \<longrightarrow> usbh_usr_application_state s' = USBH_USR_FS_INIT) \<and>
      (r \<noteq> - 1 \<longrightarrow> r = 0)) \<and>
   ((usbh_usr_application_state s = USBH_USR_FS_READLIST \<longrightarrow> tamper_wait_ends w) \<and>
    (usbh_usr_application_state s = USBH_USR_FS_WRITEFILE \<longrightarrow> wakeup_wait_ends w) \<longrightarrow>
      (\<exists>r s'. usbh_usr_msc_application b w s = Some (r, s')))"
proof (intro conjI allI impI)
  fix r s'
  assume ret: "usbh_usr_msc_application b w s = Some (r, s')"
  consider (init_ok) "usbh_usr_application_state s = USBH_USR_FS_INIT" "f_mount w = FR_OK"
    | (init_fail) "usbh_usr_application_state s = USBH_USR_FS_INIT" "f_mount w \<noteq> FR_OK"
    | (readlist) "usbh_usr_application_state s = USBH_USR_FS_READLIST"
    | (writefile) "usbh_usr_application_state s = USBH_USR_FS_WRITEFILE"
    | (other) "usbh_usr_application_state s \<noteq> USBH_USR_FS_INIT"
        "usbh_usr_application_state s \<noteq> USBH_USR_FS_READLIST"
        "usbh_usr_application_state s \<noteq> USBH_USR_FS_WRITEFILE"
    by blast
  then have "(r = - 1 \<longleftrightarrow> usbh_usr_application_state s = USBH_USR_FS_INIT \<and> f_mount w \<noteq> FR_OK) \<and>
      (r = - 1 \<longrightarrow> usbh_usr_application_state s' = USBH_USR_FS_INIT) \<and> (r \<noteq> - 1 \<longrightarrow> r = 0)"
  proof cases
    case init_ok
    with app_INIT(1) [of s w b] ret show ?thesis by auto
  next
    case init_fail
    with app_INIT(2) [of s w b] ret show ?thesis by auto
  next
    case readlist
    with app_READLIST_Some [OF _ ret] show ?thesis by auto
  next
    case writefile
    with app_WRITEFILE_Some [OF _ ret] show ?thesis by auto
  next
    case other
    with app_other [of s b w] ret show ?thesis by auto
  qed
  then show "r = - 1 \<longleftrightarrow> usbh_usr_application_state s = USBH_USR_FS_INIT \<and> f_mount w \<noteq> FR_OK"
    and "r = - 1 \<Longrightarrow> usbh_usr_application_state s' = USBH_USR_FS_INIT"
    and "r \<noteq> - 1 \<Longrightarrow> r = 0"
    by blast+
next
  assume waits: "(usbh_usr_application_state s = USBH_USR_FS_READLIST \<longrightarrow> tamper_wait_ends w) \<and>
    (usbh_usr_application_state s = USBH_USR_FS_WRITEFILE \<longrightarrow> wakeup_wait_ends w)"
  consider (init_ok) "usbh_usr_application_state s = USBH_USR_FS_INIT" "f_mount w = FR_OK"
    | (init_fail) "usbh_usr_application_state s = USBH_USR_FS_INIT" "f_mount w \<noteq> FR_OK"
    | (readlist) "usbh_usr_application_state s = USBH_USR_FS_READLIST"
    | (writefile) "usbh_usr_application_state s = USBH_USR_FS_WRITEFILE"
    | (other) "usbh_usr_application_state s \<noteq> USBH_USR_FS_INIT"
        "usbh_usr_application_state s \<noteq> USBH_USR_FS_READLIST"
        "usbh_usr_application_state s \<noteq> USBH_USR_FS_WRITEFILE"
    by blast
  then show "\<exists>r s'. usbh_usr_msc_application b w s = Some (r, s')"
  proof cases
    case init_ok
    with app_INIT(1) [of s w b] show ?thesis by blast
  next
    case init_fail
    with app_INIT(2) [of s w b] show ?thesis by blast
  next
    case readlist
    with waits app_READLIST_returns show ?thesis by blast
  next
    case writefile
    with waits app_WRITEFILE_returns show ?thesis by blast
  next
    case other
    with app_other [of s b w] show ?thesis by blast
  qed
qed

theorem msc_application_return_value_witness:
  "usbh_usr_msc_application com_build (stick\<lparr>f_mount := FR_ERR 3\<rparr>) power_on =
     Some (- 1, call ''LCD_ErrLog'' [Str (''> Cannot initialize File System.'' @ crlf)]
                  (call ''f_mount'' [Sym ''&fatfs'', Str ''0:/'', Num 0] power_on)) \<and>
   usbh_usr_application_state power_on = USBH_USR_FS_INIT \<and>
   f_mount (stick\<lparr>f_mount := FR_ERR 3\<rparr>) \<noteq> FR_OK \<and>
   usbh_usr_application_state
     (call ''LCD_ErrLog'' [Str (''> Cannot initialize File System.'' @ crlf)]
        (call ''f_mount'' [Sym ''&fatfs'', Str ''0:/'', Num 0] power_on)) = USBH_USR_FS_INIT \<and>
   tamper_wait_ends stick \<and> wakeup_wait_ends stick \<and>
   (\<exists>s'. usbh_usr_msc_application com_build stick
       (power_on\<lparr>usbh_usr_application_state := USBH_USR_FS_WRITEFILE\<rparr>) = Some (0, s'))"
proof -
  have fail: "usbh_usr_msc_application com_build (stick\<lparr>f_mount := FR_ERR 3\<rparr>) power_on =
     Some (- 1, call ''LCD_ErrLog'' [Str (''> Cannot initialize File System.'' @ crlf)]
                  (call ''f_mount'' [Sym ''&fatfs'', Str ''0:/'', Num 0] power_on))"
    by (simp add: usbh_usr_msc_application_def power_on_def stick_def)
  from msc_application_return_value
         [of com_build stick "power_on\<lparr>usbh_usr_application_state := USBH_USR_FS_WRITEFILE\<rparr>"]
    stick_wait_ends
  obtain r s' where ret: "usbh_usr_msc_application com_build stick
       (power_on\<lparr>usbh_usr_application_state := USBH_USR_FS_WRITEFILE\<rparr>) = Some (r, s')"
    by auto
  with msc_application_return_value
         [of com_build stick "power_on\<lparr>usbh_usr_application_state := USBH_USR_FS_WRITEFILE\<rparr>"]
  have "r = 0" by (auto simp: power_on_def)
  with ret fail stick_wait_ends
    msc_application_return_value [of com_build "stick\<lparr>f_mount := FR_ERR 3\<rparr>" power_on]
  show ?thesis by (auto simp: power_on_def)
qed

theorem msc_application_blocked_in_writefile:
  "usbh_usr_msc_application com_build idle_user
     (power_on\<lparr>usbh_usr_application_state := USBH_USR_FS_WRITEFILE\<rparr>) = None"
  by (simp add: usbh_usr_msc_application_def wait_forever Let_def idle_user_def stick_def
        power_on_def com_build_def call_def tick_def)

subsection \<open>The traversal of the disk\<close>

lemma explore_stick:
  "map_option (\<lambda>(r, s'). (r, line_idx s', calls_of ''f_opendir'' (trace s')))
     (explore_disk com_build stick ''0:/'' 1 power_on) =
   Some (FR_OK, 3, [[Str ''0:/''], [Str ''DOCS'']])"
  by (simp add: list_entry_def Let_def stick_def power_on_def com_build_def call_def tick_def)

text \<open>
  C3, as amended.  \<^verbatim>\<open>explore_disk\<close> returns for every finite directory model,
  provided that every wait for the Tamper key ends (the key is pressed or the device
  disconnects).  When it returns it has opened its own directory and, at level 1 only,
  directories named by entries of its listing whose attribute byte is \<open>AM_DIR\<close>; at any
  other level it has opened no further directory, so it has not called itself.  The call
  it makes for such an entry at level 1 passes level 2.
\<close>

theorem explore_disk_recursion_and_termination:
  "(tamper_wait_ends w \<longrightarrow> (\<exists>r s'. explore_disk b w path recu_level s = Some (r, s'))) \<and>
   (\<forall>r s'. explore_disk b w path recu_level s = Some (r, s') \<longrightarrow>
      (\<exists>subs. calls_of ''f_opendir'' (trace s') =
                calls_of ''f_opendir'' (trace s) @ [Str path] # subs \<and>
              (recu_level \<noteq> 1 \<longrightarrow> subs = []) \<and>
              set subs \<subseteq> (\<lambda>n. [Str n]) ` set (subdir_names b (f_readdir w path)))) \<and>
   (connect_status w (clock s) \<and> fname fno \<noteq> [] \<and> hd (fname fno) \<noteq> CHR ''.'' \<and>
    fattrib fno = AM_DIR b \<longrightarrow>
      explore_loop b w 1 ((FR_OK, fno) # dir) s =
        list_entry b w 1 fno ((call ''f_readdir'' [] (tick s))\<lparr>res := FR_OK\<rparr>) \<bind>
          (\<lambda>a. explore_disk b w (fname fno) 2 a \<bind> (\<lambda>(r, a'). explore_loop b w 1 dir a')))"
proof (intro conjI allI impI)
  assume "tamper_wait_ends w"
  then show "\<exists>r s'. explore_disk b w path recu_level s = Some (r, s')"
    by (rule explore_returns(2))
next
  fix r s'
  assume "explore_disk b w path recu_level s = Some (r, s')"
  then show "\<exists>subs. calls_of ''f_opendir'' (trace s') =
                calls_of ''f_opendir'' (trace s) @ [Str path] # subs \<and>
              (recu_level \<noteq> 1 \<longrightarrow> subs = []) \<and>
              set subs \<subseteq> (\<lambda>n. [Str n]) ` set (subdir_names b (f_readdir w path))"
    by (rule explore_opens(2))
next
  assume "connect_status w (clock s) \<and> fname fno \<noteq> [] \<and> hd (fname fno) \<noteq> CHR ''.'' \<and>
    fattrib fno = AM_DIR b"
  then show "explore_loop b w 1 ((FR_OK, fno) # dir) s =
        list_entry b w 1 fno ((call ''f_readdir'' [] (tick s))\<lparr>res := FR_OK\<rparr>) \<bind>
          (\<lambda>a. explore_disk b w (fname fno) 2 a \<bind> (\<lambda>(r, a'). explore_loop b w 1 dir a'))"
    by (auto simp: Let_def split: bind_splits intro!: bind_option_cong)
qed

theorem explore_disk_recursion_and_termination_witness:
  "tamper_wait_ends stick \<and>
   (\<exists>r s'. explore_disk com_build stick ''0:/'' 1 power_on = Some (r, s') \<and>
      calls_of ''f_opendir'' (trace s') = [[Str ''0:/''], [Str ''DOCS'']]) \<and>
   (\<exists>r s'. explore_disk com_build stick ''DOCS'' 2 power_on = Some (r, s') \<and>
      calls_of ''f_opendir'' (trace s') = [[Str ''DOCS'']]) \<and>
   connect_status stick (clock power_on) \<and>
   fattrib \<lparr>fname = ''DOCS'', fattrib = 0x10\<rparr> = AM_DIR com_build \<and>
   explore_loop com_build stick 1 [(FR_OK, \<lparr>fname = ''DOCS'', fattrib = 0x10\<rparr>)] power_on =
     list_entry com_build stick 1 \<lparr>fname = ''DOCS'', fattrib = 0x10\<rparr>
       ((call ''f_readdir'' [] (tick power_on))\<lparr>res := FR_OK\<rparr>) \<bind>
     (\<lambda>a. explore_disk com_build stick ''DOCS'' 2 a \<bind>
        (\<lambda>(r, a'). explore_loop com_build stick 1 [] a'))"
proof -
  have 3: "connect_status stick (clock power_on) \<and>
   fattrib \<lparr>fname = ''DOCS'', fattrib = 0x10\<rparr> = AM_DIR com_build"
    by (simp add: stick_def com_build_def)
  with explore_disk_recursion_and_termination
    [of stick com_build _ _ power_on "\<lparr>fname = ''DOCS'', fattrib = 0x10\<rparr>" "[]"]
  have 4: "explore_loop com_build stick 1 [(FR_OK, \<lparr>fname = ''DOCS'', fattrib = 0x10\<rparr>)] power_on =
     list_entry com_build stick 1 \<lparr>fname = ''DOCS'', fattrib = 0x10\<rparr>
       ((call ''f_readdir'' [] (tick power_on))\<lparr>res := FR_OK\<rparr>) \<bind>
     (\<lambda>a. explore_disk com_build stick ''DOCS'' 2 a \<bind>
        (\<lambda>(r, a'). explore_loop com_build stick 1 [] a'))"
    by simp
  from explore_disk_recursion_and_termination [of stick com_build "''DOCS''" 2 power_on]
    stick_wait_ends(1)
  obtain r s' where 2: "explore_disk com_build stick ''DOCS'' 2 power_on = Some (r, s')"
    by blast
  with explore_disk_recursion_and_termination [of stick com_build "''DOCS''" 2 power_on]
  have "calls_of ''f_opendir'' (trace s') = [[Str ''DOCS'']]"
    by (auto simp: power_on_def)
  with 2 3 4 explore_stick stick_wait_ends(1) show ?thesis by auto
qed

theorem explore_disk_blocked:
  "explore_disk com_build idle_user ''0:/'' 1 power_on = None"
  by (simp add: wait_forever list_entry_def Let_def idle_user_def stick_def power_on_def
        com_build_def call_def tick_def)


lemma listed_append [simp]: "listed (xs @ ys) = listed xs + listed ys"
  by (simp add: listed_def)

lemma listed_Nil [simp]: "listed [] = 0"
  by (simp add: listed_def)

lemma listed_Cons [simp]:
  "listed (Call f args # tr) =
     (if f = ''LCD_UsrLog'' \<and> take 1 args = [Str (''%s'' @ crlf)] then 1 else 0) + listed tr"
  by (simp add: listed_def)

lemma listed_toggle_leds [simp]: "listed (trace (toggle_leds b s)) = listed (trace s)"
  by (simp add: toggle_leds_def Let_def)


















lemma explore_loop_dot_entries:
  assumes "\<forall>e \<in> set dir. fst e = FR_OK \<and> fname (snd e) \<noteq> [] \<and> hd (fname (snd e)) = CHR ''.''"
  shows "\<exists>s'. explore_loop b w recu_level dir s = Some s' \<and> line_idx s' = line_idx s \<and>
           filter (\<lambda>e. callee e \<noteq> ''f_readdir'') (trace s') =
           filter (\<lambda>e. callee e \<noteq> ''f_readdir'') (trace s)"
  using assms
proof (induction dir arbitrary: s)
  case Nil
  show ?case by simp
next
  case (Cons e dir)
  obtain r fno where e: "e = (r, fno)" by (cases e)
  from Cons.prems e have dot: "r = FR_OK" "fname fno \<noteq> []" "hd (fname fno) = CHR ''.''"
    by simp_all
  let ?x = "(call ''f_readdir'' [] (tick s))\<lparr>res := FR_OK\<rparr>"
  from Cons.prems have "\<forall>e \<in> set dir. fst e = FR_OK \<and> fname (snd e) \<noteq> [] \<and>
      hd (fname (snd e)) = CHR ''.''" by simp
  from Cons.IH [OF this, of ?x] obtain s'
    where "explore_loop b w recu_level dir ?x = Some s'" "line_idx s' = line_idx s"
      "filter (\<lambda>e. callee e \<noteq> ''f_readdir'') (trace s') =
       filter (\<lambda>e. callee e \<noteq> ''f_readdir'') (trace s)"
    by auto
  with e dot show ?case by (simp add: Let_def)
qed

text \<open>
  C10.  When \<^verbatim>\<open>f_readdir\<close> returns an entry whose name begins with a dot, the loop
  of \<^verbatim>\<open>explore_disk\<close> goes on with the next result of \<^verbatim>\<open>f_readdir\<close>: the entry
  leaves \<open>line_idx\<close> as it is and adds to the trace nothing but the call of
  \<^verbatim>\<open>f_readdir\<close> itself, so nothing is printed and no directory is opened for it.
  Hence a listing that has such entries only is read to its end (or until the device
  disconnects) with \<open>line_idx\<close> unchanged and no call other than \<^verbatim>\<open>f_readdir\<close>.
\<close>

theorem explore_skips_dot_entries:
  "(connect_status w (clock s) \<and> fname fno \<noteq> [] \<and> hd (fname fno) = CHR ''.'' \<longrightarrow>
      explore_loop b w recu_level ((FR_OK, fno) # dir) s =
        explore_loop b w recu_level dir ((call ''f_readdir'' [] (tick s))\<lparr>res := FR_OK\<rparr>) \<and>
      line_idx ((call ''f_readdir'' [] (tick s))\<lparr>res := FR_OK\<rparr>) = line_idx s \<and>
      trace ((call ''f_readdir'' [] (tick s))\<lparr>res := FR_OK\<rparr>) =
        trace s @ [Call ''f_readdir'' []]) \<and>
   ((\<forall>e \<in> set dir. fst e = FR_OK \<and> fname (snd e) \<noteq> [] \<and> hd (fname (snd e)) = CHR ''.'') \<longrightarrow>
      (\<exists>s'. explore_loop b w recu_level dir s = Some s' \<and> line_idx s' = line_idx s \<and>
         filter (\<lambda>e. callee e \<noteq> ''f_readdir'') (trace s') =
         filter (\<lambda>e. callee e \<noteq> ''f_readdir'') (trace s)))"
  using explore_loop_dot_entries [of dir b w recu_level s] by (simp add: Let_def)

theorem explore_skips_dot_entries_witness:
  "connect_status stick (clock power_on) \<and>
   fname \<lparr>fname = ''.TRASH'', fattrib = 0x10\<rparr> \<noteq> [] \<and>
   hd (fname \<lparr>fname = ''.TRASH'', fattrib = 0x10\<rparr>) = CHR ''.'' \<and>
   explore_loop com_build stick 1 [(FR_OK, \<lparr>fname = ''.TRASH'', fattrib = 0x10\<rparr>)] power_on =
     Some (power_on\<lparr>clock := 2, trace := [Call ''f_readdir'' [], Call ''f_readdir'' []]\<rparr>) \<and>
   (\<exists>s'. explore_loop com_build stick 1
            [(FR_OK, \<lparr>fname = ''.'', fattrib = 0x10\<rparr>),
             (FR_OK, \<lparr>fname = ''..'', fattrib = 0x10\<rparr>)] power_on = Some s' \<and>
         line_idx s' = 0 \<and> filter (\<lambda>e. callee e \<noteq> ''f_readdir'') (trace s') = [])"
  using explore_skips_dot_entries
    [of stick power_on "\<lparr>fname = ''.TRASH'', fattrib = 0x10\<rparr>" com_build 1 "[]"]
    explore_skips_dot_entries
    [of stick power_on _ com_build 1
      "[(FR_OK, \<lparr>fname = ''.'', fattrib = 0x10\<rparr>), (FR_OK, \<lparr>fname = ''..'', fattrib = 0x10\<rparr>)]"]
  by (simp add: stick_def power_on_def call_def tick_def)

subsection \<open>The initialisation of the user layer\<close>

lemma usbh_user_init_started:
  "startup s \<noteq> 0 \<Longrightarrow> usbh_user_init b s = s"
  by (simp add: usbh_user_init_def)

lemma startup_usbh_user_init:
  "startup (usbh_user_init b s) \<noteq> 0"
  by (simp add: usbh_user_init_def Let_def call_def)

lemma usbh_user_init_twice:
  "usbh_user_init b (usbh_user_init b s) = usbh_user_init b s"
  by (rule usbh_user_init_started) (rule startup_usbh_user_init)

lemma usbh_user_init_funpow:
  "(usbh_user_init b ^^ Suc n) s = usbh_user_init b s"
  by (induction n) (simp_all add: usbh_user_init_twice)

text \<open>
  C7.  \<^verbatim>\<open>usbh_user_init\<close> configures the hardware when its flag \<open>startup\<close> is 0,
  and sets the flag to 1: the two keys are initialised, then the LCD or the serial port,
  and the start message is logged.  With the flag set the function does nothing.  Hence
  a sequence of one or more calls has the effect of a single call.
\<close>

theorem usbh_user_init_once:
  "(startup s = 0 \<longrightarrow>
      startup (usbh_user_init b s) = 1 \<and>
      calls_of ''gd_eval_key_init'' (trace (usbh_user_init b s)) =
        calls_of ''gd_eval_key_init'' (trace s) @
          [[Sym ''KEY_TAMPER'', Sym ''KEY_MODE_GPIO''], [Sym ''KEY_WAKEUP'', Sym ''KEY_MODE_GPIO'']] \<and>
      length (calls_of ''LCD_UsrLog'' (trace (usbh_user_init b s))) =
        Suc (length (calls_of ''LCD_UsrLog'' (trace s))) \<and>
      length (calls_of (if USE_LCD b then ''gd_eval_lcd_init'' else ''gd_eval_com_init'')
                (trace (usbh_user_init b s))) =
        Suc (length (calls_of (if USE_LCD b then ''gd_eval_lcd_init'' else ''gd_eval_com_init'')
                (trace s)))) \<and>
   (startup s \<noteq> 0 \<longrightarrow> usbh_user_init b s = s) \<and>
   (usbh_user_init b ^^ Suc n) s = usbh_user_init b s"
  by (simp only: usbh_user_init_funpow usbh_user_init_started simp_thms)
     (simp add: usbh_user_init_def Let_def)

theorem usbh_user_init_once_witness:
  "startup power_on = 0 \<and>
   usbh_user_init com_build power_on =
     power_on\<lparr>startup := 1,
       trace := [Call ''gd_eval_key_init'' [Sym ''KEY_TAMPER'', Sym ''KEY_MODE_GPIO''],
                 Call ''gd_eval_key_init'' [Sym ''KEY_WAKEUP'', Sym ''KEY_MODE_GPIO''],
                 Call ''gd_eval_com_init'' [Sym ''EVAL_COM''],
                 Call ''LCD_UsrLog''
                   [Str (crlf @ ''++++USB host library started++++'' @ crlf)]]\<rparr> \<and>
   startup (usbh_user_init com_build power_on) \<noteq> 0 \<and>
   (usbh_user_init com_build ^^ 3) power_on = usbh_user_init com_build power_on \<and>
   usbh_user_init com_build (usbh_user_init com_build power_on) =
     usbh_user_init com_build power_on"
proof -
  have run: "usbh_user_init com_build power_on =
     power_on\<lparr>startup := 1,
       trace := [Call ''gd_eval_key_init'' [Sym ''KEY_TAMPER'', Sym ''KEY_MODE_GPIO''],
                 Call ''gd_eval_key_init'' [Sym ''KEY_WAKEUP'', Sym ''KEY_MODE_GPIO''],
                 Call ''gd_eval_com_init'' [Sym ''EVAL_COM''],
                 Call ''LCD_UsrLog''
                   [Str (crlf @ ''++++USB host library started++++'' @ crlf)]]\<rparr>"
    by (simp add: usbh_user_init_def com_build_def power_on_def call_def)
  have 0: "startup power_on = 0" by (simp add: power_on_def)
  from usbh_user_init_once [of power_on com_build 2] 0
  have 3: "(usbh_user_init com_build ^^ 3) power_on = usbh_user_init com_build power_on"
    by (simp add: numeral_3_eq_3)
  from usbh_user_init_once [of power_on com_build 0] 0
  have 1: "startup (usbh_user_init com_build power_on) \<noteq> 0" by simp
  from usbh_user_init_once [of "usbh_user_init com_build power_on" com_build 0] 1
  have "usbh_user_init com_build (usbh_user_init com_build power_on) =
     usbh_user_init com_build power_on" by blast
  with run 0 1 3 show ?thesis by blast
qed

section \<open>Properties of the interrupt handlers\<close>

subsection \<open>The fault handlers\<close>

lemma spin_forever: "while_loop (\<lambda>s. (True, s)) (\<lambda>s. s) s = None"
  by (rule while_loop_None) simp

text \<open>
  C8.  None of the fault and exception handlers returns, whatever the state in which it
  is entered.
\<close>

theorem fault_handlers_never_return:
  "NMI_Handler s = None \<and> HardFault_Handler s = None \<and> MemManage_Handler s = None \<and>
   BusFault_Handler s = None \<and> UsageFault_Handler s = None \<and> DebugMon_Handler s = None \<and>
   FPU_IRQHandler s = None"
  by (simp add: NMI_Handler_def HardFault_Handler_def MemManage_Handler_def
        BusFault_Handler_def UsageFault_Handler_def DebugMon_Handler_def FPU_IRQHandler_def
        spin_forever)

subsection \<open>The Ethernet handlers\<close>

lemma isr_trace_simps [simp]:
  "isr_trace (isr_call f args s) = isr_trace s @ [Call f args]"
  "enet_pending (isr_call f args s) = enet_pending s"
  "isr_trace (enet_interrupt_flag_clear p c s) =
     isr_trace s @ [Call ''enet_interrupt_flag_clear'' [periph_name p, clear_name c]]"
  "enet_pending (enet_interrupt_flag_clear p c s) =
     (enet_pending s)(p := enet_pending s p - {flag_of_clear c})"
  by (simp_all add: isr_call_def enet_interrupt_flag_clear_def)

text \<open>
  C4.  \<^verbatim>\<open>ENET0_IRQHandler\<close> gives \<^verbatim>\<open>g_rx_semaphore\<close> once if the receive flag
  \<open>ENET_DMA_INT_FLAG_RS\<close> of \<open>ENET0\<close> is pending when it is entered, and not at all
  otherwise.  In both cases it calls \<^verbatim>\<open>enet_interrupt_flag_clear\<close> for
  \<open>ENET_DMA_INT_FLAG_RS_CLR\<close> and for \<open>ENET_DMA_INT_FLAG_NI_CLR\<close>, so that the flags
  \<open>ENET_DMA_INT_FLAG_RS\<close> and \<open>ENET_DMA_INT_FLAG_NI\<close> of \<open>ENET0\<close> are no longer
  pending when it returns, and nothing else of the pending flags has changed.
  \<^verbatim>\<open>ENET1_IRQHandler\<close> does the same for \<open>ENET1\<close>.
\<close>

theorem enet_irq_handlers_relay:
  "calls_of ''xSemaphoreGiveFromISR'' (isr_trace (ENET0_IRQHandler woken s)) =
     calls_of ''xSemaphoreGiveFromISR'' (isr_trace s) @
       (if ENET_DMA_INT_FLAG_RS \<in> enet_pending s ENET0 then [[Sym ''g_rx_semaphore'']] else []) \<and>
   calls_of ''enet_interrupt_flag_clear'' (isr_trace (ENET0_IRQHandler woken s)) =
     calls_of ''enet_interrupt_flag_clear'' (isr_trace s) @
       [[Sym ''ENET0'', Sym ''ENET_DMA_INT_FLAG_RS_CLR''],
        [Sym ''ENET0'', Sym ''ENET_DMA_INT_FLAG_NI_CLR'']] \<and>
   enet_pending (ENET0_IRQHandler woken s) =
     (enet_pending s)
       (ENET0 := enet_pending s ENET0 - {ENET_DMA_INT_FLAG_RS, ENET_DMA_INT_FLAG_NI}) \<and>
   calls_of ''xSemaphoreGiveFromISR'' (isr_trace (ENET1_IRQHandler woken s)) =
     calls_of ''xSemaphoreGiveFromISR'' (isr_trace s) @
       (if ENET_DMA_INT_FLAG_RS \<in> enet_pending s ENET1 then [[Sym ''g_rx_semaphore'']] else []) \<and>
   calls_of ''enet_interrupt_flag_clear'' (isr_trace (ENET1_IRQHandler woken s)) =
     calls_of ''enet_interrupt_flag_clear'' (isr_trace s) @
       [[Sym ''ENET1'', Sym ''ENET_DMA_INT_FLAG_RS_CLR''],
        [Sym ''ENET1'', Sym ''ENET_DMA_INT_FLAG_NI_CLR'']] \<and>
   enet_pending (ENET1_IRQHandler woken s) =
     (enet_pending s)
       (ENET1 := enet_pending s ENET1 - {ENET_DMA_INT_FLAG_RS, ENET_DMA_INT_FLAG_NI})"
  by (auto simp: ENET0_IRQHandler_def ENET1_IRQHandler_def enet_interrupt_flag_get_def Let_def
        fun_eq_iff)

section \<open>Properties of the network configuration\<close>

lemma lwip_call_simps [simp]:
  "net_trace (lwip_call f args e s) = net_trace s @ [Call f args]"
  "lwip (lwip_call f args e s) = e (lwip s)"
  "tcpcurtime (lwip_call f args e s) = tcpcurtime s"
  "arpcurtime (lwip_call f args e s) = arpcurtime s"
  "finecurtime (lwip_call f args e s) = finecurtime s"
  "coarsecurtime (lwip_call f args e s) = coarsecurtime s"
  "dhcp_addr_status (lwip_call f args e s) = dhcp_addr_status s"
  "ip_address (lwip_call f args e s) = ip_address s"
  by (simp_all add: lwip_call_def)

lemma dhcp_switch_times [simp]:
  "tcpcurtime (dhcp_switch api b nif s) = tcpcurtime s"
  "arpcurtime (dhcp_switch api b nif s) = arpcurtime s"
  "finecurtime (dhcp_switch api b nif s) = finecurtime s"
  "coarsecurtime (dhcp_switch api b nif s) = coarsecurtime s"
  by (simp_all add: dhcp_switch_def Let_def split: dhcp_addr_status_enum.split)


lemma dhcp_get_times [simp]:
  "tcpcurtime (lwip_dhcp_address_get api b s) = tcpcurtime s"
  "arpcurtime (lwip_dhcp_address_get api b s) = arpcurtime s"
  "finecurtime (lwip_dhcp_address_get api b s) = finecurtime s"
  "coarsecurtime (lwip_dhcp_address_get api b s) = coarsecurtime s"
  by (simp_all add: lwip_dhcp_address_get_def Let_def)












end
